theory Spec2Isabelle
  imports Complex_Main "HOL-Library.Word"
begin

section \<open>JavaScript strings\<close>

text \<open>
  A JavaScript string is a sequence of UTF-16 code units and \<open>length\<close> counts code
  units, so a string is a list of 16-bit words. \<open>js\<close> embeds an ASCII literal.
\<close>

type_synonym unit16 = "16 word"
type_synonym jsstring = "unit16 list"

definition js :: "string \<Rightarrow> jsstring" where
  "js s = map (\<lambda>c. of_nat (of_char c)) s"

text \<open>
  The code units that \<open>String.prototype.trim\<close> strips and that the regular
  expression class \<open>\s\<close> matches: ECMAScript WhiteSpace and LineTerminator.
\<close>

definition isWhiteSpace :: "unit16 \<Rightarrow> bool" where
  "isWhiteSpace c =
     (c \<in> {0x9, 0xA, 0xB, 0xC, 0xD, 0x20, 0xA0, 0x1680, 0x2028, 0x2029, 0x202F, 0x205F,
            0x3000, 0xFEFF}
      \<or> (0x2000 \<le> c \<and> c \<le> 0x200A))"

text \<open>The class \<open>\w\<close>: ASCII letters, digits and the underscore.\<close>

definition isWordChar :: "unit16 \<Rightarrow> bool" where
  "isWordChar c =
     ((0x41 \<le> c \<and> c \<le> 0x5A) \<or> (0x61 \<le> c \<and> c \<le> 0x7A) \<or> (0x30 \<le> c \<and> c \<le> 0x39)
      \<or> c = 0x5F)"

definition trim :: "jsstring \<Rightarrow> jsstring" where
  "trim s = rev (dropWhile isWhiteSpace (rev (dropWhile isWhiteSpace s)))"

subsection \<open>The regular expressions of the validators\<close>

text \<open>
  Every pattern of the source is a sequence of literal ASCII characters, \<open>\s+\<close> and
  \<open>\s*\<close>, with the flag \<open>i\<close> and without \<open>g\<close>, so \<open>test\<close> is stateless and
  asks whether the pattern matches at some position. Under \<open>i\<close> a code unit is compared
  after upper-casing; a code unit outside ASCII never canonicalises to an ASCII one, so
  against ASCII pattern characters only the ASCII letters fold.
\<close>

datatype rx = Chr char | WsPlus | WsStar

definition canonicalize :: "unit16 \<Rightarrow> unit16" where
  "canonicalize c = (if 0x61 \<le> c \<and> c \<le> 0x7A then c - 0x20 else c)"

definition ci_eq :: "char \<Rightarrow> unit16 \<Rightarrow> bool" where
  "ci_eq p c = (canonicalize (of_nat (of_char p)) = canonicalize c)"

fun match_here :: "rx list \<Rightarrow> jsstring \<Rightarrow> bool" where
  "match_here [] s = True"
| "match_here (Chr p # r) [] = False"
| "match_here (Chr p # r) (c # s) = (ci_eq p c \<and> match_here r s)"
| "match_here (WsStar # r) [] = match_here r []"
| "match_here (WsStar # r) (c # s) =
     (match_here r (c # s) \<or> (isWhiteSpace c \<and> match_here (WsStar # r) s))"
| "match_here (WsPlus # r) [] = False"
| "match_here (WsPlus # r) (c # s) = (isWhiteSpace c \<and> match_here (WsStar # r) s)"

fun regex_test :: "rx list \<Rightarrow> jsstring \<Rightarrow> bool" where
  "regex_test p [] = match_here p []"
| "regex_test p (c # s) = (match_here p (c # s) \<or> regex_test p s)"

definition lit :: "string \<Rightarrow> rx list" where
  "lit s = map Chr s"

definition dangerousPatterns :: "rx list list" where
  "dangerousPatterns =
     [lit ''<script'', lit ''javascript:'', lit ''data:text/html'', lit ''vbscript:'',
      lit ''onload='', lit ''onerror='', lit ''<iframe'', lit ''<object'', lit ''<embed'',
      lit ''<link'', lit ''<meta'', lit ''<style'']"

definition sqlPatterns :: "rx list list" where
  "sqlPatterns =
     [lit ''union'' @ WsPlus # lit ''select'',
      lit ''drop'' @ WsPlus # lit ''table'',
      lit ''delete'' @ WsPlus # lit ''from'',
      lit ''insert'' @ WsPlus # lit ''into'',
      lit ''update'' @ WsPlus # lit ''set'',
      lit '';'' @ WsStar # lit ''drop'',
      lit '';'' @ WsStar # lit ''delete'',
      lit '';'' @ WsStar # lit ''insert'',
      lit '';'' @ WsStar # lit ''update'']"

text \<open>
  \<open>(query.match(/[^\w\s]/g) || []).length\<close>: the number of code units that are neither
  word characters nor white space.
\<close>

definition specialCharCount :: "jsstring \<Rightarrow> nat" where
  "specialCharCount query = length (filter (\<lambda>c. \<not> isWordChar c \<and> \<not> isWhiteSpace c) query)"

text \<open>
  \<open>specialCharCount > query.length * 0.3\<close> is a comparison of doubles. It is reached only
  for lengths of at most 200, and for every length up to 200 and every count up to the
  length the double comparison agrees with the exact \<open>10 * count > 3 * length\<close>.
\<close>

definition tooManySpecial :: "jsstring \<Rightarrow> bool" where
  "tooManySpecial query = (10 * specialCharCount query > 3 * length query)"

section \<open>Query validator (SearchSection.jsx, validateQuery)\<close>

record validation =
  isValid :: bool
  vmessage :: "jsstring option"

definition invalid :: "string \<Rightarrow> validation" where
  "invalid m = \<lparr>isValid = False, vmessage = Some (js m)\<rparr>"

definition validateQuery :: "jsstring \<Rightarrow> validation" where
  "validateQuery query =
     (if query = [] \<or> trim query = [] then invalid ''Query cannot be empty''
      else if length (trim query) < 2 then invalid ''Query must be at least 2 characters long''
      else if length query > 200 then invalid ''Query must be less than 200 characters''
      else if list_ex (\<lambda>p. regex_test p query) dangerousPatterns
        then invalid ''Query contains potentially dangerous content''
      else if list_ex (\<lambda>p. regex_test p query) sqlPatterns
        then invalid ''Query contains potentially dangerous SQL content''
      else if tooManySpecial query then invalid ''Query contains too many special characters''
      else \<lparr>isValid = True, vmessage = None\<rparr>)"

section \<open>Request gateway (utils/api.js, api.searchTools)\<close>

text \<open>
  JSON values. An object literal of the source may hold properties whose value is
  \<open>undefined\<close>; \<open>JSON.stringify\<close> leaves those out, which \<open>obj\<close> does.
\<close>

datatype json =
    JNull
  | JBool bool
  | JNum int
  | JStr jsstring
  | JArr "json list"
  | JObj "(string \<times> json) list"

fun defined_fields :: "(string \<times> json option) list \<Rightarrow> (string \<times> json) list" where
  "defined_fields [] = []"
| "defined_fields ((k, None) # kvs) = defined_fields kvs"
| "defined_fields ((k, Some v) # kvs) = (k, v) # defined_fields kvs"

definition obj :: "(string \<times> json option) list \<Rightarrow> json" where
  "obj kvs = JObj (defined_fields kvs)"

fun field :: "json \<Rightarrow> string \<Rightarrow> json option" where
  "field (JObj kvs) k = map_of kvs k"
| "field JNull k = None"
| "field (JBool b) k = None"
| "field (JNum n) k = None"
| "field (JStr s) k = None"
| "field (JArr xs) k = None"

text \<open>
  An \<open>Error\<close> object, by its message: \<open>JsonMessage j\<close> is an error whose message is
  the text \<open>JSON.stringify\<close> made of \<open>j\<close> (and \<open>JSON.parse\<close> reads back as \<open>j\<close>);
  \<open>TextMessage m\<close> is an error whose message \<open>m\<close> is not JSON text (\<open>None\<close>: no
  message).
\<close>

datatype js_error = JsonMessage json | TextMessage "jsstring option"

text \<open>
  What the POST can come back with. A failure response carries the \<open>detail\<close> of its
  body, which is whatever JSON the server sent (numbers are modelled as integers):
  \<open>detail = None\<close> is a body without that property, or no body; \<open>response = None\<close>
  is a failure with no response at all.
\<close>

record http_response =
  status :: int
  detail :: "json option"

record axios_error =
  emessage :: "jsstring option"
  response :: "http_response option"

datatype axios_outcome = Fulfilled json | Rejected axios_error

text \<open>Truthiness of a JSON value, and \<open>Array.isArray\<close>.\<close>

fun truthy :: "json \<Rightarrow> bool" where
  "truthy JNull = False"
| "truthy (JBool b) = b"
| "truthy (JNum n) = (n \<noteq> 0)"
| "truthy (JStr s) = (s \<noteq> [])"
| "truthy (JArr xs) = True"
| "truthy (JObj kvs) = True"


text \<open>
  \<open>Array.prototype.join\<close>: the elements are converted to strings and put together
  with the separator. \<open>null\<close> converts to the empty string, a number to its decimal
  digits, an array to its own elements joined with a comma, an object to
  \<open>[object Object]\<close>.
\<close>

fun join :: "jsstring \<Rightarrow> jsstring list \<Rightarrow> jsstring" where
  "join sep [] = []"
| "join sep [x] = x"
| "join sep (x # y # ys) = x @ sep @ join sep (y # ys)"

fun digits :: "nat \<Rightarrow> jsstring" where
  "digits n = (if n < 10 then [0x30 + of_nat n] else digits (n div 10) @ [0x30 + of_nat (n mod 10)])"

definition decimal :: "int \<Rightarrow> jsstring" where
  "decimal n = (if n < 0 then js ''-'' @ digits (nat (- n)) else digits (nat n))"

fun element_string :: "json \<Rightarrow> jsstring" where
  "element_string JNull = []"
| "element_string (JBool b) = (if b then js ''true'' else js ''false'')"
| "element_string (JNum n) = decimal n"
| "element_string (JStr s) = s"
| "element_string (JArr xs) = join (js '','') (map element_string xs)"
| "element_string (JObj kvs) = js ''[object Object]''"

text \<open>
  The test \<open>error.response?.data?.detail\<close>: the detail when there is a response whose
  body has a truthy one, with the status of that response.
\<close>

definition truthy_detail :: "axios_error \<Rightarrow> (int \<times> json) option" where
  "truthy_detail e =
     (case response e of
        None \<Rightarrow> None
      | Some r \<Rightarrow>
          (case detail r of
             None \<Rightarrow> None
           | Some d \<Rightarrow> (if truthy d then Some (status r, d) else None)))"

text \<open>
  The callback of \<open>errorDetail.map\<close>. Reading \<open>err.loc\<close> throws a TypeError when the
  entry is \<open>null\<close>; on every other value a property that is not there reads as
  \<open>undefined\<close> (\<open>field\<close> gives \<open>None\<close>). Calling \<open>err.loc.join\<close> throws a TypeError
  when \<open>loc\<close> is truthy and not an array. The result is \<open>Inl\<close> with the message of the
  TypeError (in the wording of V8; no engine words it as JSON), or \<open>Inr\<close> with the
  field error.
\<close>

definition null_loc_message :: jsstring where
  "null_loc_message =
     js ''Cannot read properties of null (reading '' @ [0x27] @ js ''loc'' @ [0x27] @ js '')''"

definition join_message :: jsstring where
  "join_message = js ''err.loc.join is not a function''"

definition field_error :: "jsstring \<Rightarrow> json \<Rightarrow> json" where
  "field_error f err =
     obj [(''field'', Some (JStr f)),
          (''message'', field err ''msg''),
          (''type'', Some (JStr (js ''validation'')))]"

definition validationError :: "json \<Rightarrow> jsstring + json" where
  "validationError err =
     (if err = JNull then Inl null_loc_message
      else case field err ''loc'' of
             None \<Rightarrow> Inr (field_error (js ''query'') err)
           | Some l \<Rightarrow>
               (if truthy l then
                  (case l of
                     JArr xs \<Rightarrow> Inr (field_error (join (js ''.'') (map element_string xs)) err)
                   | _ \<Rightarrow> Inl join_message)
                else Inr (field_error (js ''query'') err)))"

text \<open>\<open>Array.prototype.map\<close> with that callback: the first entry that throws ends it.\<close>

fun validationErrors :: "json list \<Rightarrow> jsstring + json list" where
  "validationErrors [] = Inr []"
| "validationErrors (err # errs) =
     (case validationError err of
        Inl m \<Rightarrow> Inl m
      | Inr v \<Rightarrow>
          (case validationErrors errs of
             Inl m \<Rightarrow> Inl m
           | Inr vs \<Rightarrow> Inr (v # vs)))"

text \<open>\<open>error.message || fallback\<close>: an absent or empty message is falsy.\<close>

definition message_or :: "jsstring option \<Rightarrow> jsstring \<Rightarrow> jsstring" where
  "message_or m fallback = (case m of None \<Rightarrow> fallback | Some s \<Rightarrow> (if s = [] then fallback else s))"

definition validation_payload :: "json list \<Rightarrow> json" where
  "validation_payload validationErrs =
     obj [(''type'', Some (JStr (js ''validation''))),
          (''errors'', Some (JArr validationErrs)),
          (''message'', Some (JStr (js ''Please check your input and try again.'')))]"

definition api_payload :: "int \<Rightarrow> json \<Rightarrow> json" where
  "api_payload st errorDetail =
     obj [(''type'', Some (JStr (js ''api''))),
          (''message'', Some errorDetail),
          (''status'', Some (JNum st))]"

definition network_payload :: "axios_error \<Rightarrow> json" where
  "network_payload e =
     obj [(''type'', Some (JStr (js ''network''))),
          (''message'', Some (JStr (message_or (emessage e)
              (js ''Network error. Please check your connection and try again.'')))),
          (''originalError'', map_option JStr (emessage e))]"

text \<open>
  The \<open>catch\<close> block: the error it throws. The three \<open>throw\<close> statements carry a
  stringified payload; a TypeError of the callback leaves the block as it is.
\<close>

definition rejection :: "axios_error \<Rightarrow> js_error" where
  "rejection e =
     (case truthy_detail e of
        Some (st, errorDetail) \<Rightarrow>
          (if st = 422 then
             (case errorDetail of
                JArr entries \<Rightarrow>
                  (case validationErrors entries of
                     Inl m \<Rightarrow> TextMessage (Some m)
                   | Inr validationErrs \<Rightarrow> JsonMessage (validation_payload validationErrs))
              | _ \<Rightarrow> JsonMessage (api_payload st errorDetail))
           else JsonMessage (api_payload st errorDetail))
      | None \<Rightarrow> JsonMessage (network_payload e))"

text \<open>
  \<open>searchTools\<close> awaits the POST: it returns \<open>response.data\<close>, or throws (\<open>Inl\<close>).
\<close>

definition searchTools :: "axios_outcome \<Rightarrow> js_error + json" where
  "searchTools outcome =
     (case outcome of
        Fulfilled d \<Rightarrow> Inr d
      | Rejected e \<Rightarrow> Inl (rejection e))"

subsection \<open>Bodies of the backend's interface\<close>

text \<open>
  The backend's 422 body is a list of entries, each an object with a location path (an
  array of strings) and a message (a string). \<open>entry_json\<close> is the JSON of such an
  entry; either property may be missing.
\<close>

record validation_entry =
  loc :: "jsstring list option"
  msg :: "jsstring option"





section \<open>Progress simulator (hooks/useSearch.js, tick)\<close>

record stage =
  t :: int
  label :: jsstring
  smin :: int
  smax :: int
  description :: jsstring

definition maxWhilePendingBase :: int where
  "maxWhilePendingBase = 92"

definition stages :: "stage list" where
  "stages =
     [\<lparr>t = 800, label = js ''Analyzing query and extracting tools...'', smin = 5, smax = 25,
        description = js ''Searching web sources and identifying relevant tools''\<rparr>,
      \<lparr>t = 2500, label = js ''Researching individual tools...'', smin = 25, smax = 65,
        description = js ''Scraping tool websites and gathering detailed information''\<rparr>,
      \<lparr>t = 4500, label = js ''Evaluating and ranking results...'', smin = 65, smax = 85,
        description = js ''Processing tool data and filtering by criteria''\<rparr>,
      \<lparr>t = 6500, label = js ''Generating recommendations...'', smin = 85,
        smax = maxWhilePendingBase,
        description = js ''Creating personalized recommendations and analysis''\<rparr>]"

text \<open>
  The arithmetic of a tick is on doubles. Elapsed times are whole milliseconds
  (differences of \<open>Date.now()\<close>), and on those the double computation and the exact
  rational one below floor to the same integer, so the model computes in \<open>rat\<close>.
\<close>

definition easeOutCubic :: "rat \<Rightarrow> rat" where
  "easeOutCubic x = 1 - (1 - x) ^ 3"

definition dynamicCap :: "int \<Rightarrow> int" where
  "dynamicCap elapsedMs =
     (if elapsedMs < 10000 then 92
      else if elapsedMs < 18000 then 95
      else if elapsedMs < 28000 then 97
      else 99)"

text \<open>
  The \<open>for\<close> loop that picks the stage: it stops at the first stage whose threshold is
  not below the elapsed time, and otherwise ends on the last stage it visited. (The
  source's \<open>curr\<close> is written \<open>cur\<close>: the library has a constant of that name.)
\<close>

fun stage_loop :: "int \<Rightarrow> stage list \<Rightarrow> stage \<Rightarrow> stage" where
  "stage_loop elapsed [] cur = cur"
| "stage_loop elapsed (s # ss) cur = (if elapsed \<le> t s then s else stage_loop elapsed ss s)"

definition current_stage :: "int \<Rightarrow> stage" where
  "current_stage elapsed = stage_loop elapsed stages (hd stages)"

text \<open>\<open>Array.prototype.findIndex\<close>: the first index that satisfies, or -1.\<close>

fun findIndex :: "('a \<Rightarrow> bool) \<Rightarrow> 'a list \<Rightarrow> int" where
  "findIndex P [] = - 1"
| "findIndex P (x # xs) = (if P x then 0 else (let i = findIndex P xs in if i < 0 then - 1 else i + 1))"

definition tick_target :: "int \<Rightarrow> int" where
  "tick_target elapsed =
     (let cur = current_stage elapsed;
          currIndex = findIndex (\<lambda>s. s = cur) stages;
          prevT = (if currIndex > 0 then t (stages ! nat (currIndex - 1)) else 0);
          stageSpan = max 1 (t cur - prevT);
          stageElapsed = min (max (elapsed - prevT) 0) stageSpan;
          ratio = easeOutCubic (of_int stageElapsed / of_int stageSpan);
          cap = dynamicCap elapsed;
          isLastStage = (currIndex = int (length stages) - 1);
          stageMax = (if isLastStage then cap else min (smax cur) cap)
      in \<lfloor>of_int (smin cur) + of_int (stageMax - smin cur) * ratio\<rfloor>)"

section \<open>Search lifecycle controller (hooks/useSearch.js, useSearch)\<close>

text \<open>
  The hook is the one the application imports, with the staged ticker; the repository
  also holds an earlier one with fixed delays and no ticker, which is not modelled.

  The hook's state: the four published values and \<open>tickerRef\<close>. With it the model
  carries what the hook has handed to the browser and not yet got back: the table of
  live intervals (each with the \<open>startTime\<close> its \<open>tick\<close> closure captured), the number
  of pending 700 ms completion timeouts, and the calls of \<open>api.searchTools\<close> that
  have not settled. Timer ids are positive, so \<open>if (tickerRef.current)\<close> holds exactly
  when the reference is not \<open>null\<close>.
\<close>

record hook =
  loading :: bool
  loadingProgress :: int
  loadingStage :: jsstring
  error :: "json option"
  tickerRef :: "nat option"
  intervals :: "(nat \<times> int) list"
  holds :: nat
  inflight :: "nat list"
  next_timer :: nat
  next_call :: nat

definition init :: hook where
  "init = \<lparr>loading = False, loadingProgress = 0, loadingStage = [], error = None,
            tickerRef = None, intervals = [], holds = 0, inflight = [],
            next_timer = 1, next_call = 1\<rparr>"

subsection \<open>handleSearch up to the awaited call\<close>

definition client_error :: "string \<Rightarrow> json" where
  "client_error m =
     obj [(''type'', Some (JStr (js ''validation''))),
          (''message'', Some (JStr (js m))),
          (''errors'', Some (JArr [obj [(''field'', Some (JStr (js ''query''))),
                                        (''message'', Some (JStr (js m)))]]))]"

datatype preflight = Ignored | Refused json | Passed

definition preflight :: "jsstring \<Rightarrow> preflight" where
  "preflight query =
     (if trim query = [] then Ignored
      else if length (trim query) < 2
        then Refused (client_error ''Query must be at least 2 characters long'')
      else if length query > 200
        then Refused (client_error ''Query must be less than 200 characters'')
      else if list_ex (\<lambda>p. regex_test p query) dangerousPatterns
        then Refused (client_error ''Query contains potentially dangerous content'')
      else if list_ex (\<lambda>p. regex_test p query) sqlPatterns
        then Refused (client_error ''Query contains potentially dangerous SQL content'')
      else if tooManySpecial query
        then Refused (client_error ''Query contains too many special characters'')
      else Passed)"

text \<open>
  A query that passes: the published state is reset, \<open>setInterval\<close> registers a new
  interval whose id overwrites \<open>tickerRef\<close> (the id it held is not cleared), and the
  call of \<open>api.searchTools\<close> is issued.
\<close>

definition start_search :: "int \<Rightarrow> hook \<Rightarrow> hook" where
  "start_search now st =
     st\<lparr>loading := True, loadingProgress := 0, loadingStage := js ''Initializing...'',
        error := None,
        tickerRef := Some (next_timer st),
        intervals := intervals st @ [(next_timer st, now)],
        next_timer := next_timer st + 1,
        inflight := inflight st @ [next_call st],
        next_call := next_call st + 1\<rparr>"

definition handleSearch :: "jsstring \<Rightarrow> int \<Rightarrow> hook \<Rightarrow> hook" where
  "handleSearch query now st =
     (case preflight query of
        Ignored \<Rightarrow> st
      | Refused e \<Rightarrow> st\<lparr>error := Some e\<rparr>
      | Passed \<Rightarrow> start_search now st)"

subsection \<open>The tick of an interval\<close>

definition tick :: "int \<Rightarrow> hook \<Rightarrow> hook" where
  "tick elapsed st =
     (let target = tick_target elapsed
      in st\<lparr>loadingStage := label (current_stage elapsed),
            loadingProgress := (if target > loadingProgress st then target else loadingProgress st)\<rparr>)"

subsection \<open>handleSearch after the awaited call\<close>

definition clearInterval :: "nat \<Rightarrow> (nat \<times> int) list \<Rightarrow> (nat \<times> int) list" where
  "clearInterval i tbl = filter (\<lambda>e. fst e \<noteq> i) tbl"

definition stop_ticker :: "hook \<Rightarrow> hook" where
  "stop_ticker st =
     (case tickerRef st of
        None \<Rightarrow> st
      | Some i \<Rightarrow> st\<lparr>intervals := clearInterval i (intervals st), tickerRef := None\<rparr>)"

text \<open>The label of completion starts with the code unit U+2705.\<close>

definition complete_label :: jsstring where
  "complete_label = 0x2705 # js '' Research complete!''"

definition on_success :: "hook \<Rightarrow> hook" where
  "on_success st =
     (let st1 = st\<lparr>loadingProgress := 100, loadingStage := complete_label\<rparr>;
          st2 = stop_ticker st1
      in st2\<lparr>holds := holds st2 + 1\<rparr>)"

text \<open>The callback of the 700 ms timeout.\<close>

definition hold_elapsed :: "hook \<Rightarrow> hook" where
  "hold_elapsed st = st\<lparr>loading := False, loadingProgress := 0, loadingStage := []\<rparr>"

definition errorDetails :: "js_error \<Rightarrow> json" where
  "errorDetails err =
     (case err of
        JsonMessage j \<Rightarrow> j
      | TextMessage m \<Rightarrow>
          obj [(''type'', Some (JStr (js ''unknown''))),
               (''message'', Some (JStr (message_or m (js ''An unexpected error occurred''))))])"

definition on_failure :: "js_error \<Rightarrow> hook \<Rightarrow> hook" where
  "on_failure err st =
     (let st1 = stop_ticker st
      in st1\<lparr>loading := False, loadingProgress := 0, loadingStage := [],
             error := Some (errorDetails err)\<rparr>)"

subsection \<open>The event loop\<close>

text \<open>
  One event is one run-to-completion step of the page: a call of \<open>handleSearch\<close> at a
  clock reading, a firing of an interval at a clock reading, the settling of a pending
  call with the outcome of its POST, or the firing of a completion timeout. An event
  for an interval that was cleared, for a call that is not pending, or for a timeout
  that is not pending does not occur: the step leaves the state as it is.
\<close>

datatype event =
    Submit jsstring int
  | Tick nat int
  | Settle nat axios_outcome
  | HoldElapsed

fun step :: "event \<Rightarrow> hook \<Rightarrow> hook" where
  "step (Submit query now) st = handleSearch query now st"
| "step (Tick i now) st =
     (case map_of (intervals st) i of
        None \<Rightarrow> st
      | Some startTime \<Rightarrow> tick (now - startTime) st)"
| "step (Settle r outcome) st =
     (if r \<in> set (inflight st) then
        (let st1 = st\<lparr>inflight := removeAll r (inflight st)\<rparr>
         in case searchTools outcome of
              Inr results \<Rightarrow> on_success st1
            | Inl err \<Rightarrow> on_failure err st1)
      else st)"
| "step HoldElapsed st =
     (if holds st > 0 then hold_elapsed (st\<lparr>holds := holds st - 1\<rparr>) else st)"

fun run :: "event list \<Rightarrow> hook \<Rightarrow> hook" where
  "run [] st = st"
| "run (e # es) st = run es (step e st)"

text \<open>The states a run goes through, the first one included.\<close>

fun trace :: "event list \<Rightarrow> hook \<Rightarrow> hook list" where
  "trace [] st = [st]"
| "trace (e # es) st = st # trace es (step e st)"

text \<open>
  The search form disables its input and its button while \<open>loading\<close> is true
  (SearchSection.jsx), so through the form \<open>handleSearch\<close> is called only while
  \<open>loading\<close> is false. \<open>gated es st\<close>: the run \<open>es\<close> from \<open>st\<close> respects that.
\<close>

fun gated :: "event list \<Rightarrow> hook \<Rightarrow> bool" where
  "gated [] st = True"
| "gated (Submit query now # es) st = (\<not> loading st \<and> gated es (step (Submit query now) st))"
| "gated (Tick i now # es) st = gated es (step (Tick i now) st)"
| "gated (Settle r outcome # es) st = gated es (step (Settle r outcome) st)"
| "gated (HoldElapsed # es) st = gated es (step HoldElapsed st)"

text \<open>
  The invariant of gated runs. Either nothing is pending but, at most, one completion
  timeout during which \<open>loading\<close> is still true; or exactly one call is pending, it is
  the one issued last, the only live interval is the one registered last, \<open>tickerRef\<close>
  holds it, and \<open>loading\<close> is true.
\<close>

definition sequential :: "hook \<Rightarrow> bool" where
  "sequential st =
     ((inflight st = [] \<and> intervals st = [] \<and> tickerRef st = None \<and>
         (holds st = 0 \<or> (holds st = 1 \<and> loading st)))
      \<or> (inflight st = [next_call st - 1] \<and> map fst (intervals st) = [next_timer st - 1] \<and>
           tickerRef st = Some (next_timer st - 1) \<and> loading st \<and> holds st = 0))"

subsection \<open>Runs used as examples\<close>

text \<open>
  One search; a second search started while the first is still pending (a direct call
  of \<open>handleSearch\<close>, which the hook does not refuse); and a search that completes,
  whose completion timeout fires, followed by a new search.
\<close>

definition one_search :: "event list" where
  "one_search = [Submit (js ''ai'') 0]"

definition two_overlapping :: "event list" where
  "two_overlapping = [Submit (js ''ai'') 0, Submit (js ''ai'') 100]"

definition resumed_search :: "event list" where
  "resumed_search =
     [Submit (js ''ai'') 0, Tick 1 150, Settle 1 (Fulfilled JNull), HoldElapsed,
      Submit (js ''ai'') 1000]"

text \<open>A POST that got no response, and the 422 response of the specification's example.\<close>

definition refused_request :: axios_error where
  "refused_request = \<lparr>emessage = Some (js ''Network Error''), response = None\<rparr>"






text \<open>
  A search interrupted by a second one (a direct call of \<open>handleSearch\<close> at 1100 ms),
  with a tick of each search's interval; and three ticks of a single search.
\<close>

definition interrupted_search :: "event list" where
  "interrupted_search =
     [Submit (js ''ai'') 0, Tick 1 1000, Submit (js ''ai'') 1100, Tick 2 1200]"

definition three_ticks :: "event list" where
  "three_ticks = [Tick 1 100, Tick 1 1000, Tick 1 30000]"

section \<open>The stage table in the words of the specification\<close>

text \<open>
  The specification describes a tick by a stage index, a clamped ratio, the easing and
  an effective maximum. \<open>staged_value i elapsed\<close> is its formula
  \<open>min + (effectiveMax - min) * eased\<close> for the stage of index \<open>i\<close>, where the
  previous threshold of the first stage is 0.
\<close>

definition clamp :: "rat \<Rightarrow> rat \<Rightarrow> rat \<Rightarrow> rat" where
  "clamp x lo hi = min (max x lo) hi"

definition prev_threshold :: "nat \<Rightarrow> int" where
  "prev_threshold i = (if i = 0 then 0 else t (stages ! (i - 1)))"

definition effective_max :: "nat \<Rightarrow> int \<Rightarrow> int" where
  "effective_max i elapsed = (if i = length stages - 1 then dynamicCap elapsed else smax (stages ! i))"

definition staged_value :: "nat \<Rightarrow> int \<Rightarrow> rat" where
  "staged_value i elapsed =
     (let ratio = clamp ((of_int elapsed - of_int (prev_threshold i))
                          / (of_int (t (stages ! i)) - of_int (prev_threshold i))) 0 1;
          eased = 1 - (1 - ratio) ^ 3
      in of_int (smin (stages ! i)) + (of_int (effective_max i elapsed) - of_int (smin (stages ! i))) * eased)"

text \<open>
  As the specification words it: the current stage is the last one whose threshold is
  at most the elapsed time (there is none before the first threshold), and the target
  is the value of the formula.
\<close>

definition claimed_stage_index :: "int \<Rightarrow> nat option" where
  "claimed_stage_index elapsed =
     (case filter (\<lambda>i. t (stages ! i) \<le> elapsed) [0..<length stages] of
        [] \<Rightarrow> None
      | i # is \<Rightarrow> Some (last (i # is)))"

definition claimed_target :: "int \<Rightarrow> rat option" where
  "claimed_target elapsed = map_option (\<lambda>i. staged_value i elapsed) (claimed_stage_index elapsed)"

text \<open>
  What the loop of \<open>tick\<close> selects, in the same words: the current stage is the first
  one whose threshold is at least the elapsed time, the last stage when there is none;
  and the target is the floor of the value of the formula.
\<close>

definition amended_stage_index :: "int \<Rightarrow> nat" where
  "amended_stage_index elapsed =
     (case find (\<lambda>i. elapsed \<le> t (stages ! i)) [0..<length stages] of
        Some i \<Rightarrow> i
      | None \<Rightarrow> length stages - 1)"

definition amended_target :: "int \<Rightarrow> int" where
  "amended_target elapsed = \<lfloor>staged_value (amended_stage_index elapsed) elapsed\<rfloor>"

section \<open>Toasts (components/ToastContainer.jsx)\<close>

text \<open>
  The id of a toast is \<open>Date.now() + Math.random()\<close>; the model takes it from the
  caller. The type and the duration have defaults ("error", 5000) for a caller that
  leaves them out; the model takes them as given.
\<close>

record toast =
  tid :: rat
  tmessage :: jsstring
  ttype :: jsstring
  duration :: int

definition addToast :: "jsstring \<Rightarrow> jsstring \<Rightarrow> int \<Rightarrow> rat \<Rightarrow> toast list \<Rightarrow> toast list" where
  "addToast message ty dur newid prev =
     (if list_ex (\<lambda>x. tmessage x = message \<and> ttype x = ty) prev then prev
      else prev @ [\<lparr>tid = newid, tmessage = message, ttype = ty, duration = dur\<rparr>])"

definition removeToast :: "rat \<Rightarrow> toast list \<Rightarrow> toast list" where
  "removeToast i prev = filter (\<lambda>x. tid x \<noteq> i) prev"

text \<open>
  The toast list changes only through these two: \<open>addToast\<close> (from any caller), and
  \<open>removeToast\<close> (the close button, and the timeout that \<open>addToast\<close> sets when the
  duration is positive).
\<close>

datatype toast_event = AddToast jsstring jsstring int rat | RemoveToast rat

fun toast_step :: "toast_event \<Rightarrow> toast list \<Rightarrow> toast list" where
  "toast_step (AddToast message ty dur newid) prev = addToast message ty dur newid prev"
| "toast_step (RemoveToast i) prev = removeToast i prev"

fun toast_run :: "toast_event list \<Rightarrow> toast list \<Rightarrow> toast list" where
  "toast_run [] ts = ts"
| "toast_run (e # es) ts = toast_run es (toast_step e ts)"


section \<open>Properties of the validators\<close>

subsection \<open>A query that passes\<close>

lemma trim_ai: "trim (js ''ai'') = js ''ai''"
  by (simp add: trim_def js_def isWhiteSpace_def)

lemma dangerous_ai: "\<not> list_ex (\<lambda>p. regex_test p (js ''ai'')) dangerousPatterns"
  by (simp add: js_def dangerousPatterns_def lit_def ci_eq_def canonicalize_def)

lemma sql_ai: "\<not> list_ex (\<lambda>p. regex_test p (js ''ai'')) sqlPatterns"
  by (simp add: js_def sqlPatterns_def lit_def ci_eq_def canonicalize_def isWhiteSpace_def)

lemma special_ai: "\<not> tooManySpecial (js ''ai'')"
  by (simp add: js_def tooManySpecial_def specialCharCount_def isWordChar_def isWhiteSpace_def)

lemma length_ai: "length (js ''ai'') = 2" "js ''ai'' \<noteq> []"
  by (simp_all add: js_def)

lemma preflight_ai: "preflight (js ''ai'') = Passed"
  by (simp add: preflight_def trim_ai dangerous_ai sql_ai special_ai length_ai)

lemma submit_ai: "handleSearch (js ''ai'') now st = start_search now st"
  by (simp add: handleSearch_def preflight_ai)

subsection \<open>Short and long queries\<close>

text \<open>
  C7. Every query whose trimmed length is below 2 or whose length exceeds 200 is
  invalid for \<open>validateQuery\<close>, and \<open>handleSearch\<close> on it returns before the
  gateway is called: no call is issued, no interval is registered and \<open>loading\<close> is
  not touched.
\<close>

theorem short_or_long_query_rejected:
  assumes "length (trim q) < 2 \<or> length q > 200"
  shows "\<not> isValid (validateQuery q) \<and>
         inflight (handleSearch q now st) = inflight st \<and>
         next_call (handleSearch q now st) = next_call st \<and>
         intervals (handleSearch q now st) = intervals st \<and>
         loading (handleSearch q now st) = loading st"
  using assms by (auto simp: validateQuery_def invalid_def handleSearch_def preflight_def)

theorem short_or_long_query_rejected_witness:
  "(length (trim (js '' a '')) < 2 \<or> length (js '' a '') > 200) \<and>
   \<not> isValid (validateQuery (js '' a '')) \<and>
   inflight (handleSearch (js '' a '') 0 init) = inflight init \<and>
   (length (trim (replicate 201 0x61)) < 2 \<or> length (replicate 201 (0x61 :: unit16)) > 200) \<and>
   \<not> isValid (validateQuery (replicate 201 0x61)) \<and>
   inflight (handleSearch (replicate 201 0x61) 0 init) = inflight init"
proof -
  have a: "length (trim (js '' a '')) < 2 \<or> length (js '' a '') > 200"
    by (simp add: trim_def js_def isWhiteSpace_def)
  have b: "length (trim (replicate 201 0x61)) < 2 \<or> length (replicate 201 (0x61 :: unit16)) > 200"
    by simp
  from short_or_long_query_rejected [OF a, of 0 init] short_or_long_query_rejected [OF b, of 0 init] a b
  show ?thesis by simp
qed

section \<open>Properties of the gateway\<close>

subsection \<open>Entries of the backend's interface\<close>





subsection \<open>Entries on which the callback does not throw\<close>









text \<open>
  C8. Whenever the POST fails without a response, the gateway throws an error of kind
  \<open>network\<close> that carries the failure's own message: as \<open>originalError\<close>, and as
  \<open>message\<close> too unless it is absent or empty, when \<open>message\<close> is the fixed fallback.
\<close>

theorem no_response_gives_network_error:
  assumes "response e = None"
  shows "searchTools (Rejected e) = Inl (JsonMessage (network_payload e)) \<and>
         field (network_payload e) ''type'' = Some (JStr (js ''network'')) \<and>
         field (network_payload e) ''message'' =
           Some (JStr (message_or (emessage e)
             (js ''Network error. Please check your connection and try again.''))) \<and>
         field (network_payload e) ''originalError'' = map_option JStr (emessage e) \<and>
         (\<forall>m. emessage e = Some m \<and> m \<noteq> [] \<longrightarrow> field (network_payload e) ''message'' = Some (JStr m))"
  using assms
  by (cases "emessage e")
     (simp_all add: searchTools_def rejection_def truthy_detail_def network_payload_def obj_def
        message_or_def)

theorem no_response_gives_network_error_witness:
  "response refused_request = None \<and>
   searchTools (Rejected refused_request) =
     Inl (JsonMessage (JObj [(''type'', JStr (js ''network'')),
                             (''message'', JStr (js ''Network Error'')),
                             (''originalError'', JStr (js ''Network Error''))]))"
proof -
  have h: "response refused_request = None" by (simp add: refused_request_def)
  from no_response_gives_network_error [OF h] h show ?thesis
    by (simp add: network_payload_def obj_def message_or_def refused_request_def js_def)
qed




section \<open>Properties of the progress simulator\<close>

subsection \<open>The stage table\<close>

lemma stage_fields:
  "t (stages ! 0) = 800" "smin (stages ! 0) = 5" "smax (stages ! 0) = 25"
  "t (stages ! 1) = 2500" "smin (stages ! 1) = 25" "smax (stages ! 1) = 65"
  "t (stages ! 2) = 4500" "smin (stages ! 2) = 65" "smax (stages ! 2) = 85"
  "t (stages ! 3) = 6500" "smin (stages ! 3) = 85" "smax (stages ! 3) = 92"
  "t (stages ! Suc 0) = 2500" "smin (stages ! Suc 0) = 25" "smax (stages ! Suc 0) = 65"
  by (simp_all add: stages_def maxWhilePendingBase_def)

lemma stages_length: "length stages = 4"
  by (simp add: stages_def)

lemma current_stage_cases:
  "current_stage elapsed =
     (if elapsed \<le> 800 then stages ! 0 else if elapsed \<le> 2500 then stages ! 1
      else if elapsed \<le> 4500 then stages ! 2 else stages ! 3)"
  by (simp add: current_stage_def stages_def)

lemma findIndex_stages:
  "findIndex (\<lambda>s. s = stages ! 0) stages = 0"
  "findIndex (\<lambda>s. s = stages ! 1) stages = 1"
  "findIndex (\<lambda>s. s = stages ! 2) stages = 2"
  "findIndex (\<lambda>s. s = stages ! 3) stages = 3"
  "findIndex (\<lambda>s. s = stages ! Suc 0) stages = 1"
  by (simp_all add: stages_def)

lemma dynamicCap_range: "92 \<le> dynamicCap elapsed \<and> dynamicCap elapsed \<le> 99"
  by (simp add: dynamicCap_def)

subsection \<open>The target of a tick, stage by stage\<close>

lemma tick_target_stage0:
  assumes "elapsed \<le> 800"
  shows "tick_target elapsed =
    \<lfloor>of_int 5 + of_int (25 - 5) * easeOutCubic (of_int (min (max (elapsed - 0) 0) 800) / of_int 800)\<rfloor>"
proof -
  have cs: "current_stage elapsed = stages ! 0" using assms by (simp add: current_stage_cases)
  have cap: "dynamicCap elapsed = 92" using assms by (simp add: dynamicCap_def)
  show ?thesis
    by (simp add: tick_target_def cs cap findIndex_stages Let_def stage_fields stages_length)
qed

lemma tick_target_stage1:
  assumes "800 < elapsed" and "elapsed \<le> 2500"
  shows "tick_target elapsed =
    \<lfloor>of_int 25 + of_int (65 - 25) * easeOutCubic (of_int (min (max (elapsed - 800) 0) 1700) / of_int 1700)\<rfloor>"
proof -
  have cs: "current_stage elapsed = stages ! 1" using assms by (simp add: current_stage_cases)
  have cap: "dynamicCap elapsed = 92" using assms by (simp add: dynamicCap_def)
  show ?thesis
    by (simp add: tick_target_def cs cap findIndex_stages Let_def stage_fields stages_length)
qed

lemma tick_target_stage2:
  assumes "2500 < elapsed" and "elapsed \<le> 4500"
  shows "tick_target elapsed =
    \<lfloor>of_int 65 + of_int (85 - 65) * easeOutCubic (of_int (min (max (elapsed - 2500) 0) 2000) / of_int 2000)\<rfloor>"
proof -
  have cs: "current_stage elapsed = stages ! 2" using assms by (simp add: current_stage_cases)
  have cap: "dynamicCap elapsed = 92" using assms by (simp add: dynamicCap_def)
  show ?thesis
    by (simp add: tick_target_def cs cap findIndex_stages Let_def stage_fields stages_length)
qed

lemma tick_target_stage3:
  assumes "4500 < elapsed"
  shows "tick_target elapsed =
    \<lfloor>of_int 85 + of_int (dynamicCap elapsed - 85) *
       easeOutCubic (of_int (min (max (elapsed - 4500) 0) 2000) / of_int 2000)\<rfloor>"
proof -
  have cs: "current_stage elapsed = stages ! 3" using assms by (simp add: current_stage_cases)
  show ?thesis
    by (simp add: tick_target_def cs findIndex_stages Let_def stage_fields stages_length)
qed

subsection \<open>Bounds\<close>

lemma easeOutCubic_unit:
  assumes "0 \<le> x" and "x \<le> 1"
  shows "0 \<le> easeOutCubic x \<and> easeOutCubic x \<le> 1"
proof -
  have a: "0 \<le> 1 - x" and b: "1 - x \<le> 1" using assms by simp_all
  have "0 \<le> (1 - x) ^ 3" using a by simp
  moreover have "(1 - x) ^ 3 \<le> 1" using a b by (simp add: power_le_one)
  ultimately show ?thesis by (simp add: easeOutCubic_def)
qed

lemma floor_between:
  fixes r :: rat
  assumes "lo \<le> hi" and "0 \<le> r" and "r \<le> 1"
  shows "lo \<le> \<lfloor>of_int lo + of_int (hi - lo) * r\<rfloor> \<and> \<lfloor>of_int lo + of_int (hi - lo) * r\<rfloor> \<le> hi"
proof -
  have d: "(0::rat) \<le> of_int (hi - lo)" using assms(1) by simp
  have "0 \<le> of_int (hi - lo) * r" using d assms(2) by simp
  then have l: "(of_int lo :: rat) \<le> of_int lo + of_int (hi - lo) * r" by simp
  have "of_int (hi - lo) * r \<le> of_int (hi - lo) * 1"
    using assms(3) d by (rule mult_left_mono)
  then have u: "of_int lo + of_int (hi - lo) * r \<le> (of_int hi :: rat)" by simp
  show ?thesis using l u by (simp add: le_floor_iff floor_le_iff) linarith
qed

lemma elapsed_ratio_unit:
  fixes d sp :: int
  assumes "0 < sp"
  shows "(0::rat) \<le> of_int (min (max d 0) sp) / of_int sp \<and>
         (of_int (min (max d 0) sp) :: rat) / of_int sp \<le> 1"
proof -
  have "0 \<le> min (max d 0) sp" and "min (max d 0) sp \<le> sp" using assms by simp_all
  then show ?thesis using assms by simp
qed

lemma stage_value_bounds:
  assumes "lo \<le> hi" and "0 < sp"
  shows "lo \<le> \<lfloor>of_int lo + of_int (hi - lo) * easeOutCubic (of_int (min (max d 0) sp) / of_int sp)\<rfloor> \<and>
         \<lfloor>of_int lo + of_int (hi - lo) * easeOutCubic (of_int (min (max d 0) sp) / of_int sp)\<rfloor> \<le> hi"
  using floor_between [OF assms(1)] easeOutCubic_unit elapsed_ratio_unit [OF assms(2)] by blast

lemma tick_target_range: "5 \<le> tick_target elapsed \<and> tick_target elapsed \<le> dynamicCap elapsed"
proof -
  have c: "85 \<le> dynamicCap elapsed" and c': "92 \<le> dynamicCap elapsed"
    using dynamicCap_range [of elapsed] by simp_all
  consider "elapsed \<le> 800" | "800 < elapsed" "elapsed \<le> 2500" | "2500 < elapsed" "elapsed \<le> 4500"
    | "4500 < elapsed" by linarith
  then show ?thesis
  proof cases
    case 1
    show ?thesis
      using stage_value_bounds [of 5 25 800 "elapsed - 0"] c'
      unfolding tick_target_stage0 [OF 1] by linarith
  next
    case 2
    show ?thesis
      using stage_value_bounds [of 25 65 1700 "elapsed - 800"] c'
      unfolding tick_target_stage1 [OF 2] by linarith
  next
    case 3
    show ?thesis
      using stage_value_bounds [of 65 85 2000 "elapsed - 2500"] c'
      unfolding tick_target_stage2 [OF 3] by linarith
  next
    case 4
    show ?thesis
      using stage_value_bounds [OF c, of 2000 "elapsed - 4500"]
      unfolding tick_target_stage3 [OF 4] by linarith
  qed
qed

lemma tick_target_below_100: "tick_target elapsed < 100"
  using tick_target_range [of elapsed] dynamicCap_range [of elapsed] by linarith

subsection \<open>Some targets\<close>

lemma tick_target_100: "tick_target 100 = 11"
proof -
  have "tick_target 100 = \<lfloor>(5::rat) + 20 * easeOutCubic (100 / 800)\<rfloor>"
    by (simp add: tick_target_stage0)
  also have "\<dots> = 11" by code_simp
  finally show ?thesis .
qed

lemma tick_target_250: "tick_target 250 = 18"
proof -
  have "tick_target 250 = \<lfloor>(5::rat) + 20 * easeOutCubic (250 / 800)\<rfloor>"
    by (simp add: tick_target_stage0)
  also have "\<dots> = 18" by code_simp
  finally show ?thesis .
qed

lemma tick_target_1000: "tick_target 1000 = 37"
proof -
  have "tick_target 1000 = \<lfloor>(25::rat) + 40 * easeOutCubic (200 / 1700)\<rfloor>"
    by (simp add: tick_target_stage1)
  also have "\<dots> = 37" by code_simp
  finally show ?thesis .
qed

lemma tick_target_30000: "tick_target 30000 = 99"
proof -
  have "tick_target 30000 = \<lfloor>(85::rat) + 14 * easeOutCubic (2000 / 2000)\<rfloor>"
    by (simp add: tick_target_stage3 dynamicCap_def)
  also have "\<dots> = 99" by code_simp
  finally show ?thesis .
qed

subsection \<open>The stage table against the specification's formula\<close>

lemma stage_indices: "[0..<length stages] = [0, 1, 2, 3]"
  by (simp add: stages_length upt_rec)

lemma amended_stage_index_cases:
  "amended_stage_index elapsed =
     (if elapsed \<le> 800 then 0 else if elapsed \<le> 2500 then 1 else if elapsed \<le> 4500 then 2 else 3)"
  unfolding amended_stage_index_def stage_indices by (simp add: stage_fields stages_length)

lemma ratio_clamp:
  fixes d sp :: int
  assumes "0 < sp"
  shows "(of_int (min (max d 0) sp) :: rat) / of_int sp = clamp (of_int d / of_int sp) 0 1"
proof -
  let ?x = "(of_int d :: rat) / of_int sp"
  have p: "(0::rat) < of_int sp" using assms by simp
  consider "d < 0" | "0 \<le> d" "d \<le> sp" | "sp < d" by linarith
  then show ?thesis
  proof cases
    case 1
    then have "?x \<le> 0" using p by (simp add: divide_le_0_iff)
    then have "clamp ?x 0 1 = 0" by (simp add: clamp_def max_absorb2)
    moreover have "min (max d 0) sp = 0" using 1 assms by simp
    ultimately show ?thesis by simp
  next
    case 2
    then have "0 \<le> ?x" and "?x \<le> 1" using p by simp_all
    then have "clamp ?x 0 1 = ?x" by (simp add: clamp_def max_absorb1 min_absorb1)
    moreover have "min (max d 0) sp = d" using 2 by simp
    ultimately show ?thesis by simp
  next
    case 3
    then have "1 \<le> ?x" using p by simp
    then have "clamp ?x 0 1 = 1" by (simp add: clamp_def max_absorb1 min_absorb2)
    moreover have "min (max d 0) sp = sp" using 3 assms by simp
    ultimately show ?thesis using p by simp
  qed
qed

lemma staged_value_forms:
  "staged_value 0 elapsed =
     of_int 5 + of_int (25 - 5) * easeOutCubic (of_int (min (max (elapsed - 0) 0) 800) / of_int 800)"
  "staged_value 1 elapsed =
     of_int 25 + of_int (65 - 25) * easeOutCubic (of_int (min (max (elapsed - 800) 0) 1700) / of_int 1700)"
  "staged_value 2 elapsed =
     of_int 65 + of_int (85 - 65) * easeOutCubic (of_int (min (max (elapsed - 2500) 0) 2000) / of_int 2000)"
  "staged_value 3 elapsed =
     of_int 85 + of_int (dynamicCap elapsed - 85) *
       easeOutCubic (of_int (min (max (elapsed - 4500) 0) 2000) / of_int 2000)"
  using ratio_clamp [of 800 "elapsed - 0"] ratio_clamp [of 1700 "elapsed - 800"]
    ratio_clamp [of 2000 "elapsed - 2500"] ratio_clamp [of 2000 "elapsed - 4500"]
  by (simp_all add: staged_value_def prev_threshold_def effective_max_def stage_fields stages_length
      easeOutCubic_def Let_def)

lemma tick_target_amended: "tick_target elapsed = amended_target elapsed"
proof -
  consider "elapsed \<le> 800" | "800 < elapsed" "elapsed \<le> 2500" | "2500 < elapsed" "elapsed \<le> 4500"
    | "4500 < elapsed" by linarith
  then show ?thesis
  proof cases
    case 1
    then show ?thesis
      by (simp only: tick_target_stage0 amended_target_def amended_stage_index_cases
          staged_value_forms if_True)
  next
    case 2
    then have i: "amended_stage_index elapsed = 1" by (simp add: amended_stage_index_cases)
    show ?thesis
      by (simp only: tick_target_stage1 [OF 2] amended_target_def i staged_value_forms)
  next
    case 3
    then have i: "amended_stage_index elapsed = 2" by (simp add: amended_stage_index_cases)
    show ?thesis
      by (simp only: tick_target_stage2 [OF 3] amended_target_def i staged_value_forms)
  next
    case 4
    then have i: "amended_stage_index elapsed = 3" by (simp add: amended_stage_index_cases)
    show ?thesis
      by (simp only: tick_target_stage3 [OF 4] amended_target_def i staged_value_forms)
  qed
qed

lemma current_stage_amended: "current_stage elapsed = stages ! amended_stage_index elapsed"
  by (simp add: current_stage_cases amended_stage_index_cases)

lemma claimed_stage_index_1000: "claimed_stage_index 1000 = Some 0"
  unfolding claimed_stage_index_def stage_indices by (simp add: stage_fields)

lemma claimed_target_1000: "claimed_target 1000 = Some 25"
  by (simp add: claimed_target_def claimed_stage_index_1000 staged_value_forms easeOutCubic_def)

lemma current_stage_1000: "current_stage 1000 = stages ! 1 \<and> stages ! 1 \<noteq> stages ! 0"
  by (simp add: current_stage_cases stages_def)

lemma tick_fields:
  "loading (tick el st) = loading st" "error (tick el st) = error st"
  "tickerRef (tick el st) = tickerRef st" "intervals (tick el st) = intervals st"
  "holds (tick el st) = holds st" "inflight (tick el st) = inflight st"
  "next_timer (tick el st) = next_timer st" "next_call (tick el st) = next_call st"
  by (simp_all add: tick_def Let_def)

lemma tick_progress: "loadingProgress (tick el st) = max (loadingProgress st) (tick_target el)"
  by (simp add: tick_def Let_def max_def)

text \<open>
  The claim of C4 fails after 1000 ms: the last stage whose threshold is at most 1000
  is the first one (threshold 800), for which the claimed formula gives 25, while the
  loop is in the second stage and the target is 37. It fails after 100 ms as well, on
  the rounding: the formula gives 1485/128 for the first stage and the target is 11.
\<close>

theorem stage_selection_counterexample:
  "claimed_stage_index 1000 = Some 0 \<and>
   current_stage 1000 = stages ! 1 \<and> stages ! 1 \<noteq> stages ! 0 \<and>
   claimed_target 1000 = Some 25 \<and> tick_target 1000 = 37 \<and>
   staged_value 0 100 = 1485 / 128 \<and> tick_target 100 = 11"
proof -
  have "staged_value 0 100 = (5::rat) + 20 * easeOutCubic (100 / 800)"
    by (simp add: staged_value_forms)
  also have "\<dots> = 1485 / 128" by code_simp
  finally show ?thesis
    using claimed_stage_index_1000 claimed_target_1000 current_stage_1000 tick_target_1000
      tick_target_100
    by simp
qed

text \<open>
  C4, as the code has it. A tick is a function of the elapsed time and the stage table
  alone: the current stage is the first whose threshold is at least the elapsed time
  (the last stage once every threshold is passed); the ratio is
  \<open>clamp ((elapsed - prevThreshold) / (threshold - prevThreshold), 0, 1)\<close>, eased by
  \<open>1 - (1 - ratio)^3\<close>; the effective maximum is the stage's own, but the dynamic cap
  for the last stage (92 below 10 s, 95 below 18 s, 97 below 28 s, 99 from then on);
  and the target is the floor of \<open>min + (effectiveMax - min) * eased\<close>. The tick
  publishes the label of that stage and the larger of the current progress and that
  target.
\<close>

theorem tick_follows_stage_table:
  "current_stage elapsed = stages ! amended_stage_index elapsed \<and>
   tick_target elapsed = amended_target elapsed \<and>
   loadingStage (tick elapsed st) = label (stages ! amended_stage_index elapsed) \<and>
   loadingProgress (tick elapsed st) = max (loadingProgress st) (amended_target elapsed) \<and>
   dynamicCap elapsed =
     (if elapsed < 10000 then 92 else if elapsed < 18000 then 95
      else if elapsed < 28000 then 97 else 99)"
  using current_stage_amended [of elapsed] tick_target_amended [of elapsed]
  by (simp add: tick_progress dynamicCap_def) (simp add: tick_def Let_def)

section \<open>Properties of the controller\<close>

subsection \<open>Ticks never lower the progress\<close>

lemma step_tick_fields:
  "loading (step (Tick i now) st) = loading st"
  "tickerRef (step (Tick i now) st) = tickerRef st" "intervals (step (Tick i now) st) = intervals st"
  "holds (step (Tick i now) st) = holds st" "inflight (step (Tick i now) st) = inflight st"
  "next_timer (step (Tick i now) st) = next_timer st" "next_call (step (Tick i now) st) = next_call st"
  by (simp_all add: tick_fields split: option.splits)

lemma step_tick_progress: "loadingProgress st \<le> loadingProgress (step (Tick i now) st)"
  by (simp add: tick_progress split: option.splits)

lemma trace_ticks_lower:
  "x \<in> set (trace (map (\<lambda>(i, now). Tick i now) ticks) st) \<Longrightarrow> loadingProgress st \<le> loadingProgress x"
proof (induction ticks arbitrary: st)
  case Nil
  then show ?case by simp
next
  case (Cons p ticks)
  obtain i now where p: "p = (i, now)" by (cases p)
  from Cons.prems p consider "x = st"
    | "x \<in> set (trace (map (\<lambda>(i, now). Tick i now) ticks) (step (Tick i now) st))"
    by auto
  then show ?case
  proof cases
    case 1
    then show ?thesis by simp
  next
    case 2
    from Cons.IH [OF 2] step_tick_progress [of st i now] show ?thesis by linarith
  qed
qed

lemma trace_ticks_sorted:
  "sorted (map loadingProgress (trace (map (\<lambda>(i, now). Tick i now) ticks) st))"
proof (induction ticks arbitrary: st)
  case Nil
  then show ?case by simp
next
  case (Cons p ticks)
  obtain i now where p: "p = (i, now)" by (cases p)
  let ?st' = "step (Tick i now) st"
  let ?rest = "trace (map (\<lambda>(i, now). Tick i now) ticks) ?st'"
  have "loadingProgress st \<le> loadingProgress x" if "x \<in> set ?rest" for x
    using trace_ticks_lower [OF that] step_tick_progress [of st i now] by linarith
  then have "\<forall>y \<in> set (map loadingProgress ?rest). loadingProgress st \<le> y" by auto
  moreover have "sorted (map loadingProgress ?rest)" by (rule Cons.IH)
  moreover have "trace (map (\<lambda>(i, now). Tick i now) (p # ticks)) st = st # ?rest"
    by (simp add: p)
  ultimately show ?case by (simp del: step.simps)
qed

subsection \<open>Progress stays below 100 until a call succeeds\<close>

lemma step_progress_ok:
  assumes "loadingProgress st \<le> 100" and "loadingProgress st = 100 \<longrightarrow> 0 < holds st"
  shows "loadingProgress (step e st) \<le> 100 \<and> (loadingProgress (step e st) = 100 \<longrightarrow> 0 < holds (step e st))"
proof (cases e)
  case (Submit q now)
  then show ?thesis using assms
    by (cases "preflight q") (simp_all add: handleSearch_def start_search_def)
next
  case (Tick i now)
  show ?thesis
  proof (cases "map_of (intervals st) i")
    case None
    with Tick assms show ?thesis by simp
  next
    case (Some s)
    have "tick_target (now - s) < 100" by (rule tick_target_below_100)
    with Tick Some assms show ?thesis by (simp add: tick_progress tick_fields max_def)
  qed
next
  case (Settle r outcome)
  then show ?thesis using assms
    by (cases outcome)
       (simp_all add: searchTools_def on_success_def on_failure_def stop_ticker_def Let_def
          split: option.splits)
next
  case HoldElapsed
  then show ?thesis using assms by (auto simp: hold_elapsed_def)
qed

lemma run_progress_ok:
  assumes "loadingProgress st \<le> 100" and "loadingProgress st = 100 \<longrightarrow> 0 < holds st"
  shows "loadingProgress (run es st) \<le> 100 \<and> (loadingProgress (run es st) = 100 \<longrightarrow> 0 < holds (run es st))"
  using assms
proof (induction es arbitrary: st)
  case Nil
  then show ?case by simp
next
  case (Cons e es)
  from step_progress_ok [OF Cons.prems] show ?case
    by (simp add: Cons.IH)
qed

lemma success_progress:
  assumes "r \<in> set (inflight st)"
  shows "loadingProgress (step (Settle r (Fulfilled d)) st) = 100 \<and>
         loading (step (Settle r (Fulfilled d)) st) = loading st"
  using assms
  by (simp add: searchTools_def on_success_def stop_ticker_def Let_def split: option.splits)

lemma run_single:
  "run one_search init =
     \<lparr>loading = True, loadingProgress = 0, loadingStage = js ''Initializing...'', error = None,
      tickerRef = Some 1, intervals = [(1, 0)], holds = 0, inflight = [1],
      next_timer = 2, next_call = 2\<rparr>"
  by (simp add: one_search_def submit_ai start_search_def init_def)

text \<open>
  The claim of C2 fails right after a success: the progress is 100 while \<open>loading\<close> is
  still true, and stays so until the completion timeout fires 700 ms later.
\<close>

theorem complete_while_loading:
  "loading (step (Settle 1 (Fulfilled JNull)) (run one_search init)) \<and>
   loadingProgress (step (Settle 1 (Fulfilled JNull)) (run one_search init)) = 100"
  by (simp add: run_single searchTools_def on_success_def stop_ticker_def clearInterval_def Let_def)

text \<open>
  C2, as the code has it. In every state the hook can reach, while \<open>loading\<close> is true
  and no completion timeout is pending (no call has succeeded in the last 700 ms), the
  progress is below 100; and the successful settling of a pending call sets the
  progress to 100 at once, leaving \<open>loading\<close> as it was (true, until the timeout).
\<close>

theorem progress_below_100_until_success:
  "(loading (run es init) \<and> holds (run es init) = 0 \<longrightarrow> loadingProgress (run es init) < 100) \<and>
   (r \<in> set (inflight st) \<longrightarrow>
      loadingProgress (step (Settle r (Fulfilled d)) st) = 100 \<and>
      loading (step (Settle r (Fulfilled d)) st) = loading st)"
proof -
  have "loadingProgress init \<le> 100" and "loadingProgress init = 100 \<longrightarrow> 0 < holds init"
    by (simp_all add: init_def)
  from run_progress_ok [OF this, of es]
  have "holds (run es init) = 0 \<longrightarrow> loadingProgress (run es init) < 100" by auto
  then show ?thesis using success_progress [of r st d] by blast
qed

theorem progress_below_100_until_success_witness:
  "loading (run (one_search @ [Tick 1 30000]) init) \<and>
   holds (run (one_search @ [Tick 1 30000]) init) = 0 \<and>
   loadingProgress (run (one_search @ [Tick 1 30000]) init) = 99 \<and>
   1 \<in> set (inflight (run one_search init)) \<and>
   loadingProgress (step (Settle 1 (Fulfilled JNull)) (run one_search init)) = 100 \<and>
   loading (step (Settle 1 (Fulfilled JNull)) (run one_search init))"
proof -
  have r: "run (one_search @ [Tick 1 30000]) init = step (Tick 1 30000) (run one_search init)"
    by (simp add: one_search_def)
  have a: "loading (run (one_search @ [Tick 1 30000]) init)"
    and b: "holds (run (one_search @ [Tick 1 30000]) init) = 0"
    and c: "loadingProgress (run (one_search @ [Tick 1 30000]) init) = 99"
    unfolding r run_single by (simp_all add: tick_def Let_def tick_target_30000)
  have d: "1 \<in> set (inflight (run one_search init))"
    and e: "loading (run one_search init)" unfolding run_single by simp_all
  from progress_below_100_until_success
    [of "one_search @ [Tick 1 30000]" 1 "run one_search init" JNull] a b c d e
  show ?thesis by (simp del: step.simps)
qed

subsection \<open>Runs through the search form\<close>

lemma sequential_init: "sequential init"
  by (simp add: sequential_def init_def)

lemma sequential_step:
  assumes "sequential st" and "gated [e] st"
  shows "sequential (step e st)"
proof (cases e)
  case (Submit q now)
  with assms(2) have nl: "\<not> loading st" by simp
  with assms(1) have idle: "inflight st = []" "intervals st = []" "tickerRef st = None" "holds st = 0"
    by (auto simp: sequential_def)
  show ?thesis
  proof (cases "preflight q")
    case Ignored
    with Submit assms(1) show ?thesis by (simp add: handleSearch_def)
  next
    case (Refused j)
    with Submit assms(1) show ?thesis by (simp add: handleSearch_def sequential_def)
  next
    case Passed
    with Submit idle show ?thesis by (simp add: handleSearch_def start_search_def sequential_def)
  qed
next
  case (Tick i now)
  with assms(1) show ?thesis by (simp add: sequential_def step_tick_fields del: step.simps)
next
  case (Settle r outcome)
  show ?thesis
  proof (cases "r \<in> set (inflight st)")
    case False
    with Settle assms(1) show ?thesis by simp
  next
    case True
    with assms(1) have busy: "inflight st = [r]" "map fst (intervals st) = [next_timer st - 1]"
      "tickerRef st = Some (next_timer st - 1)" "loading st" "holds st = 0"
      by (auto simp: sequential_def)
    from busy(2) obtain s where iv: "intervals st = [(next_timer st - 1, s)]"
      by (cases "intervals st") auto
    show ?thesis using Settle True busy iv
      by (cases outcome)
         (simp_all add: searchTools_def on_success_def on_failure_def stop_ticker_def clearInterval_def
            Let_def sequential_def)
  qed
next
  case HoldElapsed
  with assms(1) show ?thesis by (auto simp: sequential_def hold_elapsed_def)
qed

lemma gated_Cons: "gated (e # es) st \<longleftrightarrow> gated [e] st \<and> gated es (step e st)"
  by (cases e) simp_all

lemma sequential_run:
  assumes "sequential st" and "gated es st"
  shows "sequential (run es st)"
  using assms
proof (induction es arbitrary: st)
  case Nil
  then show ?case by simp
next
  case (Cons e es)
  from Cons.prems(2) have g: "gated [e] st" "gated es (step e st)"
    using gated_Cons [of e es st] by simp_all
  from sequential_step [OF Cons.prems(1) g(1)] g(2) show ?case
    by (simp add: Cons.IH)
qed

lemma sequential_latest_only:
  assumes "sequential st"
  shows "set (inflight st) \<subseteq> {next_call st - 1} \<and>
         fst ` set (intervals st) \<subseteq> {next_timer st - 1} \<and>
         (\<forall>i now. i \<noteq> next_timer st - 1 \<longrightarrow> step (Tick i now) st = st) \<and>
         (\<forall>r outcome. r \<noteq> next_call st - 1 \<longrightarrow> step (Settle r outcome) st = st) \<and>
         (\<not> loading st \<longrightarrow> inflight st = [] \<and> intervals st = [] \<and> holds st = 0)"
proof -
  have a: "set (inflight st) \<subseteq> {next_call st - 1}" using assms by (auto simp: sequential_def)
  have b: "fst ` set (intervals st) \<subseteq> {next_timer st - 1}"
    using assms by (auto simp: sequential_def simp flip: set_map)
  have c: "step (Tick i now) st = st" if "i \<noteq> next_timer st - 1" for i now
  proof -
    from b that have "i \<notin> fst ` set (intervals st)" by auto
    then have "map_of (intervals st) i = None" by (simp add: map_of_eq_None_iff)
    then show ?thesis by simp
  qed
  have d: "step (Settle r outcome) st = st" if "r \<noteq> next_call st - 1" for r outcome
    using a that by auto
  have e: "\<not> loading st \<longrightarrow> inflight st = [] \<and> intervals st = [] \<and> holds st = 0"
    using assms by (auto simp: sequential_def)
  from a b c d e show ?thesis by blast
qed

lemma run_two_overlapping:
  "run two_overlapping init =
     \<lparr>loading = True, loadingProgress = 0, loadingStage = js ''Initializing...'', error = None,
      tickerRef = Some 2, intervals = [(1, 0), (2, 100)], holds = 0, inflight = [1, 2],
      next_timer = 3, next_call = 3\<rparr>"
  by (simp add: two_overlapping_def submit_ai start_search_def init_def)

lemma gated_resumed: "gated resumed_search init"
  by (simp add: resumed_search_def submit_ai start_search_def init_def tick_def Let_def
      searchTools_def on_success_def stop_ticker_def clearInterval_def hold_elapsed_def)

lemma run_resumed:
  "run resumed_search init =
     \<lparr>loading = True, loadingProgress = 0, loadingStage = js ''Initializing...'', error = None,
      tickerRef = Some 2, intervals = [(2, 1000)], holds = 0, inflight = [2],
      next_timer = 3, next_call = 3\<rparr>"
  by (simp add: resumed_search_def submit_ai start_search_def init_def tick_def Let_def
      searchTools_def on_success_def stop_ticker_def clearInterval_def hold_elapsed_def)

lemma gated_one: "gated one_search init"
  by (simp add: one_search_def init_def)

subsection \<open>Progress while a call is pending\<close>

lemma settle_inflight:
  "inflight (step (Settle r outcome) st) =
     (if r \<in> set (inflight st) then removeAll r (inflight st) else inflight st)"
  by (cases outcome)
     (simp_all add: searchTools_def on_success_def on_failure_def stop_ticker_def Let_def
        split: option.splits)

lemma sequential_busy:
  assumes "sequential st" and "inflight st \<noteq> []"
  shows "loading st" and "holds st = 0" and "inflight st = [next_call st - 1]"
  using assms by (auto simp: sequential_def)

lemma gated_busy_step:
  assumes "sequential st" and "inflight st \<noteq> []" and "gated [e] st"
    and "inflight (step e st) \<noteq> []"
  shows "loadingProgress st \<le> loadingProgress (step e st)"
proof (cases e)
  case (Submit q now)
  with assms(3) sequential_busy(1) [OF assms(1,2)] show ?thesis by simp
next
  case (Tick i now)
  then show ?thesis using step_tick_progress [of st i now] by simp
next
  case (Settle r outcome)
  show ?thesis
  proof (cases "r \<in> set (inflight st)")
    case True
    with sequential_busy(3) [OF assms(1,2)] have "removeAll r (inflight st) = []" by auto
    with True Settle assms(4) show ?thesis by (simp add: settle_inflight del: step.simps)
  next
    case False
    with Settle show ?thesis by simp
  qed
next
  case HoldElapsed
  with sequential_busy(2) [OF assms(1,2)] show ?thesis by simp
qed

lemma trace_first: "\<exists>rest. trace es st = st # rest"
  by (cases es) simp_all

lemma gated_busy_trace:
  assumes "sequential st" and "gated es st" and "list_all (\<lambda>s. inflight s \<noteq> []) (trace es st)"
  shows "sorted (map loadingProgress (trace es st)) \<and>
         (\<forall>x \<in> set (trace es st). loadingProgress st \<le> loadingProgress x)"
  using assms
proof (induction es arbitrary: st)
  case Nil
  then show ?case by simp
next
  case (Cons e es)
  let ?st' = "step e st"
  from Cons.prems(2) have g: "gated [e] st" "gated es ?st'"
    using gated_Cons [of e es st] by simp_all
  from Cons.prems(3) have b: "inflight st \<noteq> []" and bs: "list_all (\<lambda>s. inflight s \<noteq> []) (trace es ?st')"
    by simp_all
  from trace_first [of es ?st'] bs have b': "inflight ?st' \<noteq> []" by auto
  have up: "loadingProgress st \<le> loadingProgress ?st'"
    by (rule gated_busy_step [OF Cons.prems(1) b g(1) b'])
  have s': "sequential ?st'" by (rule sequential_step [OF Cons.prems(1) g(1)])
  from Cons.IH [OF s' g(2) bs]
  have srt: "sorted (map loadingProgress (trace es ?st'))"
    and low: "\<forall>x \<in> set (trace es ?st'). loadingProgress ?st' \<le> loadingProgress x" by simp_all
  from low up have "\<forall>x \<in> set (trace es ?st'). loadingProgress st \<le> loadingProgress x"
    by (meson order_trans)
  with srt show ?case by (simp del: step.simps)
qed

lemma run_interrupted:
  "map loadingProgress (trace interrupted_search init) = [0, 0, 37, 0, 11]"
  "inflight (run interrupted_search init) = [1, 2]"
  by (simp_all add: interrupted_search_def submit_ai start_search_def init_def tick_def Let_def
      tick_target_1000 tick_target_100)

text \<open>
  The claim of C3 fails when a second search is started while the first call is
  pending: the first search's tick publishes 37 at 1000 ms, the second call of
  \<open>handleSearch\<close> at 1100 ms resets the progress to 0, and the next tick publishes 11,
  with the first call still pending.
\<close>

theorem interrupted_progress_decreases:
  "map loadingProgress (trace interrupted_search init) = [0, 0, 37, 0, 11] \<and>
   \<not> sorted (map loadingProgress (trace interrupted_search init)) \<and>
   inflight (run interrupted_search init) = [1, 2]"
  by (simp add: run_interrupted)

text \<open>
  C3, as the code has it. A tick publishes the larger of the current progress and its
  target, so no tick lowers the progress and a sequence of ticks alone publishes
  non-decreasing values. In every run through the search form, the progress values
  published while a call is pending, from the submission to the settling of its call,
  are non-decreasing.
\<close>

theorem progress_non_decreasing_while_pending:
  "loadingProgress (tick elapsed st) = max (loadingProgress st) (tick_target elapsed) \<and>
   loadingProgress st \<le> loadingProgress (step (Tick i now) st) \<and>
   sorted (map loadingProgress (trace (map (\<lambda>(i, now). Tick i now) ticks) st)) \<and>
   (gated es init \<and> gated es' (run es init) \<and>
      list_all (\<lambda>s. inflight s \<noteq> []) (trace es' (run es init)) \<longrightarrow>
      sorted (map loadingProgress (trace es' (run es init))))"
  using tick_progress [of elapsed st] step_tick_progress [of st i now] trace_ticks_sorted [of ticks st]
    gated_busy_trace [OF sequential_run [OF sequential_init], of es es']
  by blast

theorem progress_non_decreasing_while_pending_witness:
  "gated one_search init \<and> gated three_ticks (run one_search init) \<and>
   list_all (\<lambda>s. inflight s \<noteq> []) (trace three_ticks (run one_search init)) \<and>
   map loadingProgress (trace three_ticks (run one_search init)) = [0, 11, 37, 99] \<and>
   sorted (map loadingProgress (trace three_ticks (run one_search init)))"
proof -
  have a: "gated three_ticks (run one_search init)" by (simp add: three_ticks_def)
  have b: "list_all (\<lambda>s. inflight s \<noteq> []) (trace three_ticks (run one_search init))"
    unfolding run_single by (simp add: three_ticks_def tick_def Let_def)
  have c: "map loadingProgress (trace three_ticks (run one_search init)) = [0, 11, 37, 99]"
    unfolding run_single
    by (simp add: three_ticks_def tick_def Let_def tick_target_100 tick_target_1000 tick_target_30000)
  from progress_non_decreasing_while_pending [of _ _ _ _ _ one_search three_ticks] gated_one a b c
  show ?thesis by simp
qed

text \<open>
  The claim of C1 fails on the hook: it keeps no generation. When a second search is
  started at 100 ms while the first call is pending, the success of the first call
  still sets the progress to 100 and the label to the completion label, and the first
  search's interval, which is never cleared, still publishes its own progress and
  label at 250 ms.
\<close>

theorem stale_resolution_mutates_state:
  "loadingProgress (run two_overlapping init) = 0 \<and>
   loadingStage (run two_overlapping init) = js ''Initializing...'' \<and>
   loadingProgress (step (Settle 1 (Fulfilled JNull)) (run two_overlapping init)) = 100 \<and>
   loadingStage (step (Settle 1 (Fulfilled JNull)) (run two_overlapping init)) = complete_label \<and>
   loadingProgress (step (Tick 1 250) (run two_overlapping init)) = 18 \<and>
   loadingStage (step (Tick 1 250) (run two_overlapping init)) = label (stages ! 0)"
  by (simp add: run_two_overlapping searchTools_def on_success_def stop_ticker_def clearInterval_def
      Let_def tick_def tick_target_250 current_stage_cases)

text \<open>
  C1, as the code has it. The hook has no generation token; searches are kept apart by
  the search form, which starts one only while \<open>loading\<close> is false. In every run that
  respects this, a search starts only when no call is pending, no interval is live and
  no completion timeout is pending; at every moment the only pending call and the only
  live interval are those of the search started last; and the firing of any other
  interval, or the settling of any other call, leaves the state as it is. So nothing
  of an earlier search alters the published state once a later one has begun.
\<close>

theorem gated_run_only_latest_submission:
  assumes "gated es init"
  shows "set (inflight (run es init)) \<subseteq> {next_call (run es init) - 1} \<and>
         fst ` set (intervals (run es init)) \<subseteq> {next_timer (run es init) - 1} \<and>
         (\<forall>i now. i \<noteq> next_timer (run es init) - 1 \<longrightarrow>
            step (Tick i now) (run es init) = run es init) \<and>
         (\<forall>r outcome. r \<noteq> next_call (run es init) - 1 \<longrightarrow>
            step (Settle r outcome) (run es init) = run es init) \<and>
         (\<not> loading (run es init) \<longrightarrow>
            inflight (run es init) = [] \<and> intervals (run es init) = [] \<and> holds (run es init) = 0)"
  by (rule sequential_latest_only [OF sequential_run [OF sequential_init assms]])

theorem gated_run_only_latest_submission_witness:
  "gated resumed_search init \<and>
   inflight (run resumed_search init) = [2] \<and>
   intervals (run resumed_search init) = [(2, 1000)] \<and>
   next_call (run resumed_search init) = 3 \<and>
   next_timer (run resumed_search init) = 3 \<and>
   step (Tick 1 1150) (run resumed_search init) = run resumed_search init \<and>
   step (Settle 1 (Fulfilled JNull)) (run resumed_search init) = run resumed_search init"
  using gated_run_only_latest_submission [OF gated_resumed] gated_resumed
  by (simp add: run_resumed)

subsection \<open>The error path\<close>

lemma clearInterval_absent: "i \<notin> fst ` set (clearInterval i tbl)"
  by (auto simp: clearInterval_def)

lemma failure_resets:
  assumes "r \<in> set (inflight st)"
  shows "\<not> loading (step (Settle r (Rejected e)) st) \<and>
         loadingProgress (step (Settle r (Rejected e)) st) = 0 \<and>
         loadingStage (step (Settle r (Rejected e)) st) = [] \<and>
         tickerRef (step (Settle r (Rejected e)) st) = None \<and>
         error (step (Settle r (Rejected e)) st) = Some (errorDetails (rejection e)) \<and>
         (\<forall>i. tickerRef st = Some i \<longrightarrow> i \<notin> fst ` set (intervals (step (Settle r (Rejected e)) st)))"
  using assms clearInterval_absent
  by (simp add: searchTools_def on_failure_def stop_ticker_def errorDetails_def Let_def
      split: option.splits)

lemma gated_failure_clears:
  assumes "gated es init" and "r \<in> set (inflight (run es init))"
  shows "intervals (step (Settle r (Rejected e)) (run es init)) = [] \<and>
         inflight (step (Settle r (Rejected e)) (run es init)) = []"
proof -
  have s: "sequential (run es init)" by (rule sequential_run [OF sequential_init assms(1)])
  have "sequential (step (Settle r (Rejected e)) (run es init))"
    by (rule sequential_step [OF s]) simp
  moreover have "\<not> loading (step (Settle r (Rejected e)) (run es init))"
    using failure_resets [OF assms(2)] by blast
  ultimately show ?thesis using sequential_latest_only by blast
qed

text \<open>
  The claim of C6 fails when a second search was started while the first call was
  pending: the failure of the first call clears the interval that \<open>tickerRef\<close> holds,
  which is the second search's, and the first search's interval survives; its next
  firing publishes a progress of 18 and a stage label while \<open>loading\<close> is false.
\<close>

theorem overlapped_failure_leaves_ticker:
  "intervals (step (Settle 1 (Rejected refused_request)) (run two_overlapping init)) = [(1, 0)] \<and>
   inflight (step (Settle 1 (Rejected refused_request)) (run two_overlapping init)) = [2] \<and>
   \<not> loading (step (Tick 1 250) (step (Settle 1 (Rejected refused_request)) (run two_overlapping init))) \<and>
   loadingProgress (step (Tick 1 250) (step (Settle 1 (Rejected refused_request)) (run two_overlapping init))) = 18 \<and>
   loadingStage (step (Tick 1 250) (step (Settle 1 (Rejected refused_request)) (run two_overlapping init)))
     = label (stages ! 0)"
  by (simp add: run_two_overlapping searchTools_def on_failure_def stop_ticker_def clearInterval_def
      Let_def tick_def tick_target_250 current_stage_cases)

text \<open>
  C6, as the code has it. Whenever a pending call fails, in whatever state, the hook
  sets \<open>loading\<close> to false, the progress to 0 and the stage label to the empty string,
  stores the error, and clears the interval that \<open>tickerRef\<close> holds, leaving
  \<open>tickerRef\<close> empty. In every run through the search form that interval is the
  failing search's own, and after the failure no interval is live and no call is
  pending.
\<close>

theorem failure_path_resets_state:
  "(r \<in> set (inflight st) \<longrightarrow>
      \<not> loading (step (Settle r (Rejected e)) st) \<and>
      loadingProgress (step (Settle r (Rejected e)) st) = 0 \<and>
      loadingStage (step (Settle r (Rejected e)) st) = [] \<and>
      tickerRef (step (Settle r (Rejected e)) st) = None \<and>
      error (step (Settle r (Rejected e)) st) = Some (errorDetails (rejection e)) \<and>
      (\<forall>i. tickerRef st = Some i \<longrightarrow> i \<notin> fst ` set (intervals (step (Settle r (Rejected e)) st)))) \<and>
   (gated es init \<and> r \<in> set (inflight (run es init)) \<longrightarrow>
      intervals (step (Settle r (Rejected e)) (run es init)) = [] \<and>
      inflight (step (Settle r (Rejected e)) (run es init)) = [])"
  using failure_resets [of r st e] gated_failure_clears [of es r e] by blast

theorem failure_path_resets_state_witness:
  "1 \<in> set (inflight (run one_search init)) \<and>
   gated one_search init \<and>
   tickerRef (run one_search init) = Some 1 \<and>
   intervals (run one_search init) = [(1, 0)] \<and>
   \<not> loading (step (Settle 1 (Rejected refused_request)) (run one_search init)) \<and>
   loadingProgress (step (Settle 1 (Rejected refused_request)) (run one_search init)) = 0 \<and>
   loadingStage (step (Settle 1 (Rejected refused_request)) (run one_search init)) = [] \<and>
   tickerRef (step (Settle 1 (Rejected refused_request)) (run one_search init)) = None \<and>
   intervals (step (Settle 1 (Rejected refused_request)) (run one_search init)) = []"
proof -
  have a: "1 \<in> set (inflight (run one_search init))"
    and b: "tickerRef (run one_search init) = Some 1"
    and c: "intervals (run one_search init) = [(1, 0)]"
    unfolding run_single by simp_all
  from failure_path_resets_state [of 1 "run one_search init" refused_request one_search] a b c gated_one
  show ?thesis by (simp del: step.simps)
qed

section \<open>Properties of the toasts\<close>

lemma addToast_keys:
  "distinct (map (\<lambda>x. (tmessage x, ttype x)) prev) \<Longrightarrow>
   distinct (map (\<lambda>x. (tmessage x, ttype x)) (addToast m ty dur i prev))"
  by (auto simp: addToast_def list_ex_iff)

lemma removeToast_keys:
  "distinct (map (\<lambda>x. (tmessage x, ttype x)) prev) \<Longrightarrow>
   distinct (map (\<lambda>x. (tmessage x, ttype x)) (removeToast i prev))"
  by (simp add: removeToast_def distinct_map_filter)

lemma toast_step_keys:
  "distinct (map (\<lambda>x. (tmessage x, ttype x)) prev) \<Longrightarrow>
   distinct (map (\<lambda>x. (tmessage x, ttype x)) (toast_step e prev))"
  by (cases e) (simp_all add: addToast_keys removeToast_keys)

lemma toast_run_keys:
  "distinct (map (\<lambda>x. (tmessage x, ttype x)) ts) \<Longrightarrow>
   distinct (map (\<lambda>x. (tmessage x, ttype x)) (toast_run es ts))"
  by (induction es arbitrary: ts) (simp_all add: toast_step_keys)

text \<open>
  C9. A call of \<open>addToast\<close> with a message and a type that a toast of the list already
  has leaves the list as it is; so in every list that calls of \<open>addToast\<close> and
  \<open>removeToast\<close> make from the empty one, no two toasts have the same message and
  type.
\<close>

theorem toasts_deduplicated:
  "(list_ex (\<lambda>x. tmessage x = m \<and> ttype x = ty) prev \<longrightarrow> addToast m ty dur i prev = prev) \<and>
   distinct (map (\<lambda>x. (tmessage x, ttype x)) (toast_run es []))"
  by (simp add: addToast_def toast_run_keys)

theorem toasts_deduplicated_witness:
  "list_ex (\<lambda>x. tmessage x = js ''Oops'' \<and> ttype x = js ''error'')
     [\<lparr>tid = 1, tmessage = js ''Oops'', ttype = js ''error'', duration = 5000\<rparr>] \<and>
   addToast (js ''Oops'') (js ''error'') 6000 2
     [\<lparr>tid = 1, tmessage = js ''Oops'', ttype = js ''error'', duration = 5000\<rparr>] =
     [\<lparr>tid = 1, tmessage = js ''Oops'', ttype = js ''error'', duration = 5000\<rparr>] \<and>
   toast_run [AddToast (js ''Oops'') (js ''error'') 5000 1, AddToast (js ''Oops'') (js ''error'') 6000 2,
              AddToast (js ''Oops'') (js ''warning'') 4000 3] [] =
     [\<lparr>tid = 1, tmessage = js ''Oops'', ttype = js ''error'', duration = 5000\<rparr>,
      \<lparr>tid = 3, tmessage = js ''Oops'', ttype = js ''warning'', duration = 4000\<rparr>] \<and>
   distinct (map (\<lambda>x. (tmessage x, ttype x))
     (toast_run [AddToast (js ''Oops'') (js ''error'') 5000 1, AddToast (js ''Oops'') (js ''error'') 6000 2,
              AddToast (js ''Oops'') (js ''warning'') 4000 3] []))"
  using toasts_deduplicated [of "js ''Oops''" "js ''error''"
      "[\<lparr>tid = 1, tmessage = js ''Oops'', ttype = js ''error'', duration = 5000\<rparr>]" 6000 2
      "[AddToast (js ''Oops'') (js ''error'') 5000 1, AddToast (js ''Oops'') (js ''error'') 6000 2,
              AddToast (js ''Oops'') (js ''warning'') 4000 3]"]
  by (simp add: addToast_def js_def)

end
